theory Spec2Isabelle
  imports Main "HOL-Library.Multiset"
begin

section \<open>The spelling checker of \<^verbatim>\<open>app.js\<close>\<close>

text \<open>
  A shallow embedding of \<^verbatim>\<open>src/spelling-checker/app.js\<close>. The page keeps one piece of
  script state (\<^verbatim>\<open>currentMatches\<close>) and reads and writes a handful of DOM properties; both
  are fields of one record that every handler takes and returns. The network call of
  \<^verbatim>\<open>checkText\<close> is split at its \<^verbatim>\<open>await\<close>: the part that runs when the handler is called,
  and the part that runs when the request settles, with the response as an input.

  Modelling decisions:
  \<^item> a JavaScript string is a \<open>string\<close>: one \<open>char\<close> per UTF-16 code unit, for the code
    units below 256;
  \<^item> the numbers of a match (\<^verbatim>\<open>offset\<close>, \<^verbatim>\<open>length\<close>) are \<open>int\<close>: the service sends
    integers, and nothing in the script keeps them non-negative or in range;
  \<^item> \<^verbatim>\<open>innerHTML\<close> and \<^verbatim>\<open>textContent\<close> hold the string that was assigned, and
    \<^verbatim>\<open>editor.value\<close> the string that was stored;
  \<^item> a response body that parses is a well-typed list of matches; a body that does not
    parse is the response \<open>JsonParseError\<close>.
\<close>

subsection \<open>String primitives of the language\<close>

text \<open>\<^verbatim>\<open>String.prototype.slice(start, end)\<close>: a negative index counts from the end, both are
  clamped to the string, and an empty string results when the bounds cross.\<close>

definition slice :: "string \<Rightarrow> int \<Rightarrow> int \<Rightarrow> string" where
  "slice s start end' =
     (let len = int (length s);
          from = (if start < 0 then max (len + start) 0 else min start len);
          to = (if end' < 0 then max (len + end') 0 else min end' len)
      in take (nat (to - from)) (drop (nat from) s))"

text \<open>\<^verbatim>\<open>slice(start)\<close>: the end defaults to the length.\<close>

definition sliceFrom :: "string \<Rightarrow> int \<Rightarrow> string" where
  "sliceFrom s start = slice s start (int (length s))"

text \<open>\<^verbatim>\<open>String.prototype.substring(start, end)\<close>: both indices are clamped to
  \<open>[0, length]\<close> and swapped when they cross.\<close>

definition substring :: "string \<Rightarrow> int \<Rightarrow> int \<Rightarrow> string" where
  "substring s start end' =
     (let len = int (length s);
          finalStart = min (max start 0) len;
          finalEnd = min (max end' 0) len;
          from = min finalStart finalEnd;
          to = max finalStart finalEnd
      in take (nat (to - from)) (drop (nat from) s))"

text \<open>\<^verbatim>\<open>substring(start)\<close>: the end defaults to the length.\<close>

definition substringFrom :: "string \<Rightarrow> int \<Rightarrow> string" where
  "substringFrom s start = substring s start (int (length s))"

text \<open>The white space of \<^verbatim>\<open>trim()\<close> and of the regular expression class \<^verbatim>\<open>\s\<close> (the two
  sets are the same): tab, line feed, vertical tab, form feed, carriage return, space and
  the no-break space.\<close>

definition isWhiteSpace :: "char \<Rightarrow> bool" where
  "isWhiteSpace c \<longleftrightarrow>
     c = CHR 0x09 \<or> c = CHR 0x0A \<or> c = CHR 0x0B \<or> c = CHR 0x0C \<or> c = CHR 0x0D \<or>
     c = CHR 0x20 \<or> c = CHR 0xA0"

definition trim :: "string \<Rightarrow> string" where
  "trim s = rev (dropWhile isWhiteSpace (rev (dropWhile isWhiteSpace s)))"

text \<open>\<^verbatim>\<open>split(/\s+/)\<close>: scan from the left; at a white space character the piece read so
  far is emitted and the whole run of white space (the match is greedy) is skipped; the
  piece after the last separator is emitted at the end, also when it is empty.\<close>

function splitFrom :: "string \<Rightarrow> string \<Rightarrow> string list" where
  "splitFrom piece [] = [piece]"
| "splitFrom piece (c # cs) =
     (if isWhiteSpace c then piece # splitFrom [] (dropWhile isWhiteSpace cs)
      else splitFrom (piece @ [c]) cs)"
  by pat_completeness auto
termination
  by (relation "measure (\<lambda>(piece, s). length s)")
     (auto simp: length_dropWhile_le less_Suc_eq_le)

definition splitWhiteSpace :: "string \<Rightarrow> string list" where
  "splitWhiteSpace s = splitFrom [] s"

text \<open>\<^verbatim>\<open>replace(/c/g, r)\<close> for a pattern of one character and a replacement without
  \<^verbatim>\<open>$\<close>: every occurrence of the character becomes the replacement.\<close>

definition replaceAll :: "char \<Rightarrow> string \<Rightarrow> string \<Rightarrow> string" where
  "replaceAll c r s = concat (map (\<lambda>x. if x = c then r else [x]) s)"

definition endsWith :: "string \<Rightarrow> string \<Rightarrow> bool" where
  "endsWith s suffix \<longleftrightarrow>
     length suffix \<le> length s \<and> drop (length s - length suffix) s = suffix"

text \<open>A non-negative integer in a template literal: its decimal digits.\<close>

definition digitChar :: "nat \<Rightarrow> char" where
  "digitChar d = ''0123456789'' ! d"

fun showNat :: "nat \<Rightarrow> string" where
  "showNat n = (if n < 10 then [digitChar n] else showNat (n div 10) @ [digitChar (n mod 10)])"

declare showNat.simps [simp del]

subsection \<open>The data of the checking service\<close>

text \<open>One match of the response:
  \<^verbatim>\<open>{offset, length, message, rule: {issueType}, context: {text, offset, length},
   replacements: [{value}, ...]}\<close>. Fields whose name is taken in HOL carry a suffix.\<close>

record match_rule =
  issueType :: string

record match_context =
  text_c :: string
  offset_c :: int
  length_c :: int

record replacement =
  value_r :: string

record match =
  offset :: int
  length_m :: int
  message :: string
  rule :: match_rule
  context_m :: match_context
  replacements :: "replacement list"

text \<open>How a request to the service ends: \<^verbatim>\<open>fetch\<close> rejects, the status is not ok,
  \<^verbatim>\<open>response.json()\<close> rejects, or the body parses and \<^verbatim>\<open>data.matches\<close> is read.\<close>

datatype response = NetworkError | StatusNotOk | JsonParseError | Matches "match list"

definition LANGUAGETOOL_API :: string where
  "LANGUAGETOOL_API = ''https://api.languagetoolplus.com/v2/check''"

definition LANGUAGE :: string where
  "LANGUAGE = ''en-US''"

subsection \<open>The state of the page\<close>

text \<open>The script variable \<^verbatim>\<open>currentMatches\<close>, the DOM properties the script reads or writes,
  and what leaves the page: the requests posted (url, text, language), the alerts shown and
  the messages logged with \<^verbatim>\<open>console.error\<close>.\<close>

record app =
  editor_value :: string
  highlights_innerHTML :: string
  charCount_textContent :: string
  wordCount_textContent :: string
  suggestionsList_innerHTML :: string
  badge_textContent :: string
  badge_hidden :: bool
  badge_warning :: bool
  loader_hidden :: bool
  checkBtn_disabled :: bool
  checkBtn_opacity :: string
  currentMatches :: "match list"
  requests :: "(string \<times> string \<times> string) list"
  alerts :: "string list"
  console_errors :: "string list"

datatype error = TypeError

subsection \<open>Statistics\<close>

definition countWords :: "string \<Rightarrow> nat" where
  "countWords text' = (if trim text' = [] then 0 else length (splitWhiteSpace (trim text')))"

definition charLabel :: "nat \<Rightarrow> string" where
  "charLabel n = showNat n @ '' character'' @ (if n \<noteq> 1 then ''s'' else [])"

definition wordLabel :: "nat \<Rightarrow> string" where
  "wordLabel words = showNat words @ '' word'' @ (if words \<noteq> 1 then ''s'' else [])"

definition updateStats :: "app \<Rightarrow> app" where
  "updateStats s =
     (let text' = editor_value s
      in s\<lparr>charCount_textContent := charLabel (length text'),
           wordCount_textContent := wordLabel (countWords text')\<rparr>)"

subsection \<open>Escaping and the plain overlay\<close>

definition escapeHtml :: "string \<Rightarrow> string" where
  \<open>escapeHtml text' =
     replaceAll (CHR 0x27) ''&#039;''
       (replaceAll (CHR ''"'') ''&quot;''
         (replaceAll (CHR ''>'') ''&gt;''
           (replaceAll (CHR ''<'') ''&lt;''
             (replaceAll (CHR ''&'') ''&amp;'' text'))))\<close>

definition clearHighlights :: "app \<Rightarrow> app" where
  "clearHighlights s = s\<lparr>highlights_innerHTML := escapeHtml (editor_value s)\<rparr>"

text \<open>The \<^verbatim>\<open>input\<close> listener of the editor. The browser has stored the edited text in
  \<^verbatim>\<open>editor.value\<close> when the listener runs.\<close>

definition onInput :: "string \<Rightarrow> app \<Rightarrow> app" where
  "onInput edited s = clearHighlights (updateStats (s\<lparr>editor_value := edited\<rparr>))"

subsection \<open>The check\<close>

definition setLoading :: "bool \<Rightarrow> app \<Rightarrow> app" where
  "setLoading isLoading s =
     (if isLoading
      then s\<lparr>loader_hidden := False, checkBtn_disabled := True, checkBtn_opacity := ''0.7''\<rparr>
      else s\<lparr>loader_hidden := True, checkBtn_disabled := False, checkBtn_opacity := ''1''\<rparr>)"

text \<open>The stable sort of \<^verbatim>\<open>[...currentMatches].sort((a, b) => a.offset - b.offset)\<close>:
  \<^verbatim>\<open>Array.prototype.sort\<close> is stable, and with a consistent comparator its result is the
  one of inserting every element, from the last to the first, before the first element
  it does not compare greater than.\<close>

definition compareOffset :: "match \<Rightarrow> match \<Rightarrow> int" where
  "compareOffset a b = offset a - offset b"

fun insertSorted :: "match \<Rightarrow> match list \<Rightarrow> match list" where
  "insertSorted a [] = [a]"
| "insertSorted a (b # bs) =
     (if compareOffset a b \<le> 0 then a # b # bs else b # insertSorted a bs)"

definition sortMatches :: "match list \<Rightarrow> match list" where
  "sortMatches ms = foldr insertSorted ms []"

definition typeClass :: "match \<Rightarrow> string" where
  "typeClass m = (if issueType (rule m) = ''misspelling'' then ''misspelling'' else ''grammar'')"

text \<open>The opening tag of a highlight, with the class and the \<^verbatim>\<open>data-index\<close> attribute.\<close>

definition markOpen :: "string \<Rightarrow> nat \<Rightarrow> string" where
  \<open>markOpen cls index = ''<mark class="'' @ cls @ ''" data-index="'' @ showNat index @ ''">''\<close>

definition markClose :: string where
  "markClose = ''</mark>''"

text \<open>The body of the \<^verbatim>\<open>forEach\<close> of \<^verbatim>\<open>applyHighlights\<close>: the callback gets the match and
  its index in the sorted array, and updates \<^verbatim>\<open>highlightedText\<close> and \<^verbatim>\<open>lastIndex\<close>.\<close>

fun highlightStep :: "string \<Rightarrow> nat \<times> match \<Rightarrow> string \<times> int \<Rightarrow> string \<times> int" where
  "highlightStep text' (index, m) (highlightedText, lastIndex) =
     (let before = escapeHtml (slice text' lastIndex (offset m));
          issueWord = escapeHtml (slice text' (offset m) (offset m + length_m m))
      in (highlightedText @ before @ markOpen (typeClass m) index @ issueWord @ markClose,
          offset m + length_m m))"

definition highlightedTextOf :: "string \<Rightarrow> match list \<Rightarrow> string" where
  "highlightedTextOf text' ms =
     (let sortedMatches = sortMatches ms;
          (highlightedText, lastIndex) =
             fold (highlightStep text') (enumerate 0 sortedMatches) ([], 0);
          highlightedText' = highlightedText @ escapeHtml (sliceFrom text' lastIndex)
      in if endsWith text' [CHR 0x0A] then highlightedText' @ ''<br>'' else highlightedText')"

definition applyHighlights :: "app \<Rightarrow> app" where
  "applyHighlights s =
     s\<lparr>highlights_innerHTML := highlightedTextOf (editor_value s) (currentMatches s)\<rparr>"

text \<open>The click listener of the overlay: the card a click on a highlight looks up, from the
  \<^verbatim>\<open>data-index\<close> attribute of the highlight.\<close>

definition cardIdOfMark :: "string \<Rightarrow> string" where
  "cardIdOfMark dataIndex = ''card-'' @ dataIndex"

subsection \<open>The suggestion panel\<close>

definition emptyState :: string where
  \<open>emptyState =
     ''\<newline>'' @
     ''                <div class="empty-state">\<newline>'' @
     ''                    <svg width="48" height="48" viewBox="0 0 24 24" fill="none" stroke="currentColor" stroke-width="2" stroke-linecap="round" stroke-linejoin="round">\<newline>'' @
     ''                        <path d="M22 11.08V12a10 10 10 0 1 1-5.93-9.14"></path>\<newline>'' @
     ''                        <polyline points="22 4 12 14.01 9 11.01"></polyline>\<newline>'' @
     ''                    </svg>\<newline>'' @
     ''                    <p>No issues found! Your text looks great.</p>\<newline>'' @
     ''                </div>\<newline>'' @
     ''            ''\<close>

definition replacementButton :: "nat \<Rightarrow> replacement \<Rightarrow> string" where
  \<open>replacementButton index rep =
     ''<button class="replacement-btn" onclick="applyReplacement('' @ showNat index @ '', '' @
     [CHR 0x27] @ replaceAll (CHR 0x27) [CHR 0x5C, CHR 0x27] (value_r rep) @ [CHR 0x27] @
     '')">'' @ escapeHtml (value_r rep) @ ''</button>''\<close>

definition renderCard :: "nat \<Rightarrow> match \<Rightarrow> string" where
  \<open>renderCard index m =
     (let isMisspelling = (issueType (rule m) = ''misspelling'');
          cardClass = (if isMisspelling then ''error'' else ''warning'');
          issueTypeDisplay = (if isMisspelling then ''Spelling'' else ''Grammar'');
          ctxText = escapeHtml (text_c (context_m m));
          ctxStart = offset_c (context_m m);
          ctxLen = length_c (context_m m);
          beforeCtx = substring ctxText 0 ctxStart;
          errCtx = substring ctxText ctxStart (ctxStart + ctxLen);
          afterCtx = substringFrom ctxText (ctxStart + ctxLen);
          buttons = concat (map (replacementButton index) (take 5 (replacements m)))
      in ''\<newline>'' @
         ''                <div class="suggestion-card '' @ cardClass @ ''" id="card-'' @ showNat index @ ''">\<newline>'' @
         ''                    <div class="card-header">\<newline>'' @
         ''                        <span class="issue-type">'' @ issueTypeDisplay @ ''</span>\<newline>'' @
         ''                    </div>\<newline>'' @
         ''                    <div class="issue-message">'' @ escapeHtml (message m) @ ''</div>\<newline>'' @
         ''                    <div class="context-str">\<newline>'' @
         ''                        '' @ beforeCtx @ ''<span class="context-err">'' @ errCtx @ ''</span>'' @ afterCtx @ ''\<newline>'' @
         ''                    </div>\<newline>'' @
         ''                    '' @
         (if buttons \<noteq> [] then ''<div class="replacements">'' @ buttons @ ''</div>'' else []) @
         ''\<newline>'' @
         ''                </div>\<newline>'' @
         ''            '')\<close>

definition renderResults :: "app \<Rightarrow> app" where
  "renderResults s =
     (if length (currentMatches s) = 0
      then s\<lparr>badge_hidden := True, suggestionsList_innerHTML := emptyState\<rparr>
      else
        let misspellings =
              length (filter (\<lambda>m. issueType (rule m) = ''misspelling'') (currentMatches s));
            html = fold (\<lambda>(index, m) html. html @ renderCard index m)
                     (enumerate 0 (currentMatches s)) []
        in s\<lparr>badge_textContent := showNat (length (currentMatches s)),
             badge_hidden := False,
             badge_warning := (misspellings = 0),
             suggestionsList_innerHTML := html\<rparr>)"

subsection \<open>Checking and replacing\<close>

text \<open>\<^verbatim>\<open>checkText\<close> up to its first \<^verbatim>\<open>await\<close>: nothing happens on a blank buffer; otherwise
  the page shows that it is busy and the request is posted.\<close>

definition checkText :: "app \<Rightarrow> app" where
  "checkText s =
     (let text' = editor_value s
      in if trim text' = [] then s
         else (setLoading True s)\<lparr>requests := requests s @ [(LANGUAGETOOL_API, text', LANGUAGE)]\<rparr>)"

text \<open>\<^verbatim>\<open>checkText\<close> after the request has settled: the \<^verbatim>\<open>try\<close> block goes on with the matches,
  or the \<^verbatim>\<open>catch\<close> block logs and alerts; \<^verbatim>\<open>finally\<close> ends the busy state in both cases.\<close>

definition checkTextSettled :: "response \<Rightarrow> app \<Rightarrow> app" where
  "checkTextSettled r s =
     (case r of
        Matches ms \<Rightarrow>
          setLoading False (applyHighlights (renderResults (s\<lparr>currentMatches := ms\<rparr>)))
      | _ \<Rightarrow>
          setLoading False
            (s\<lparr>console_errors := console_errors s @ [''Error checking text:''],
               alerts := alerts s @ [''Failed to check text. Please try again later.'']\<rparr>))"

text \<open>\<^verbatim>\<open>window.applyReplacement\<close>. \<^verbatim>\<open>currentMatches[matchIndex]\<close> is \<^verbatim>\<open>undefined\<close> outside
  the array, and reading \<^verbatim>\<open>match.offset\<close> then throws a \<^verbatim>\<open>TypeError\<close> before anything is
  written. The call of \<^verbatim>\<open>checkText\<close> at the end returns at its first \<^verbatim>\<open>await\<close>.\<close>

definition applyReplacement :: "int \<Rightarrow> string \<Rightarrow> app \<Rightarrow> error + app" where
  "applyReplacement matchIndex replacementText s =
     (if 0 \<le> matchIndex \<and> matchIndex < int (length (currentMatches s))
      then
        let m = currentMatches s ! nat matchIndex;
            text' = editor_value s;
            newText = substring text' 0 (offset m) @ replacementText
                        @ substringFrom text' (offset m + length_m m)
        in Inr (checkText (updateStats (s\<lparr>editor_value := newText\<rparr>)))
      else Inl TypeError)"

subsection \<open>Notions of the specification\<close>

text \<open>The maximal white-space-delimited tokens of a text: skip white space, take the
  longest run of other characters, and go on behind it.\<close>

function maximalTokens :: "string \<Rightarrow> string list" where
  "maximalTokens s =
     (case dropWhile isWhiteSpace s of
        [] \<Rightarrow> []
      | c # cs \<Rightarrow>
          (c # takeWhile (\<lambda>x. \<not> isWhiteSpace x) cs)
            # maximalTokens (dropWhile (\<lambda>x. \<not> isWhiteSpace x) cs))"
  by pat_completeness auto
termination
proof (relation "measure length", goal_cases)
  case 1
  show ?case by simp
next
  case (2 s c cs)
  have "length (dropWhile (\<lambda>x. \<not> isWhiteSpace x) cs) \<le> length cs"
    by (rule length_dropWhile_le)
  moreover have "length (c # cs) \<le> length s"
    using 2 length_dropWhile_le [of isWhiteSpace s] by simp
  ultimately show ?case by simp
qed

declare maximalTokens.simps [simp del]

text \<open>The splice of the specification: the buffer up to the offset, the replacement, and
  the buffer from the end of the issue on.\<close>

definition spliceBuffer :: "string \<Rightarrow> int \<Rightarrow> int \<Rightarrow> string \<Rightarrow> string" where
  "spliceBuffer B off len r = take (nat off) B @ r @ drop (nat (off + len)) B"

text \<open>Stripping the wrapper tags of the overlay: every opening tag \<^verbatim>\<open><mark ...>\<close>, up to
  its \<^verbatim>\<open>>\<close>, and every closing tag \<^verbatim>\<open></mark>\<close> is dropped; all other text is kept. The flag
  says whether the scan is inside a tag.\<close>

fun stripTags :: "bool \<Rightarrow> string \<Rightarrow> string" where
  "stripTags inTag [] = []"
| "stripTags True (c # cs) =
     (if c = CHR ''>'' then stripTags False cs else stripTags True cs)"
| "stripTags False (c # cs) =
     (if c = CHR ''<'' \<and> (take 5 cs = ''mark '' \<or> take 6 cs = ''/mark>'')
      then stripTags True cs else c # stripTags False cs)"

definition stripWrapperTags :: "string \<Rightarrow> string" where
  "stripWrapperTags html = stripTags False html"

text \<open>The walk of the specification over a list of issues, from a cursor and a first
  index on: for each issue in turn, the escaped text from the cursor to the offset of the
  issue and the escaped, wrapped text the issue covers, the cursor going to the end of the
  issue and the index to the next one; behind the last issue, the escaped text from the
  cursor on.\<close>

fun walkIssues :: "string \<Rightarrow> int \<Rightarrow> nat \<Rightarrow> match list \<Rightarrow> string" where
  "walkIssues B cursor index [] = escapeHtml (sliceFrom B cursor)"
| "walkIssues B cursor index (m # ms) =
     escapeHtml (slice B cursor (offset m))
     @ markOpen (typeClass m) index
     @ escapeHtml (slice B (offset m) (offset m + length_m m))
     @ markClose
     @ walkIssues B (offset m + length_m m) (Suc index) ms"

text \<open>The highlights that stand in an overlay, read from the markup from left to right:
  for each \<^verbatim>\<open>mark\<close> element its opening tag, from \<^verbatim>\<open><\<close> to \<^verbatim>\<open>>\<close>, and the text it wraps,
  up to the next \<^verbatim>\<open><\<close>. The scan is outside every highlight, inside an opening tag, or
  inside the wrapped text; it carries the opening tag and the text read so far.\<close>

datatype scanState = Plain | OpenTag | Content

fun scanMarks :: "scanState \<Rightarrow> string \<Rightarrow> string \<Rightarrow> string \<Rightarrow> (string \<times> string) list" where
  "scanMarks st tag word [] = []"
| "scanMarks Plain tag word (c # cs) =
     (if c = CHR ''<'' \<and> take 5 cs = ''mark '' then scanMarks OpenTag [c] [] cs
      else scanMarks Plain [] [] cs)"
| "scanMarks OpenTag tag word (c # cs) =
     (if c = CHR ''>'' then scanMarks Content (tag @ [c]) [] cs
      else scanMarks OpenTag (tag @ [c]) [] cs)"
| "scanMarks Content tag word (c # cs) =
     (if c = CHR ''<'' then (tag, word) # scanMarks Plain [] [] cs
      else scanMarks Content tag (word @ [c]) cs)"

definition marksOf :: "string \<Rightarrow> (string \<times> string) list" where
  "marksOf html = scanMarks Plain [] [] html"

text \<open>An issue lies within a buffer; a list of issues is sorted by ascending offset; no
  issue of a list reaches into a later one.\<close>

definition withinRange :: "string \<Rightarrow> match \<Rightarrow> bool" where
  "withinRange B m \<longleftrightarrow>
     0 \<le> offset m \<and> 0 \<le> length_m m \<and> offset m + length_m m \<le> int (length B)"

definition sortedByOffset :: "match list \<Rightarrow> bool" where
  "sortedByOffset ms \<longleftrightarrow> sorted (map offset ms)"

fun nonOverlapping :: "match list \<Rightarrow> bool" where
  "nonOverlapping [] = True"
| "nonOverlapping (m # ms) =
     ((\<forall>m' \<in> set ms. offset m + length_m m \<le> offset m') \<and> nonOverlapping ms)"

subsection \<open>Notions of the proofs\<close>

text \<open>The cursor condition the renderer needs, issue by issue: each issue starts at or
  behind the cursor, has a length that is not negative, and ends within the buffer.\<close>

fun placedFrom :: "int \<Rightarrow> int \<Rightarrow> match list \<Rightarrow> bool" where
  "placedFrom len cur [] = True"
| "placedFrom len cur (m # ms) =
     (cur \<le> offset m \<and> 0 \<le> length_m m \<and> offset m + length_m m \<le> len
      \<and> placedFrom len (offset m + length_m m) ms)"

text \<open>What \<open>escapeHtml\<close> makes of one character, once its five passes are put together.\<close>

definition escapeChar :: "char \<Rightarrow> string" where
  \<open>escapeChar c =
     (if c = CHR ''&'' then ''&amp;''
      else if c = CHR ''<'' then ''&lt;''
      else if c = CHR ''>'' then ''&gt;''
      else if c = CHR ''"'' then ''&quot;''
      else if c = CHR 0x27 then ''&#039;''
      else [c])\<close>

subsection \<open>Example data\<close>

text \<open>The match of the scenario of the specification, on the buffer \<^verbatim>\<open>I has a dog\<close>.\<close>

definition hasIssue :: match where
  "hasIssue =
     \<lparr>offset = 2, length_m = 3, message = ''Subject-verb agreement'',
      rule = \<lparr>issueType = ''grammar''\<rparr>,
      context_m = \<lparr>text_c = ''I has a dog'', offset_c = 2, length_c = 3\<rparr>,
      replacements = [\<lparr>value_r = ''have''\<rparr>]\<rparr>"

text \<open>A misspelling further to the right, on the buffer \<^verbatim>\<open>I has a dgo\<close>.\<close>

definition dgoIssue :: match where
  "dgoIssue =
     \<lparr>offset = 8, length_m = 3, message = ''Possible spelling mistake found.'',
      rule = \<lparr>issueType = ''misspelling''\<rparr>,
      context_m = \<lparr>text_c = ''I has a dgo'', offset_c = 8, length_c = 3\<rparr>,
      replacements = [\<lparr>value_r = ''dog''\<rparr>, \<lparr>value_r = ''ago''\<rparr>]\<rparr>"

text \<open>A misspelling at the start of the buffer that holds \<^verbatim>\<open>teh\<close> and a line feed.\<close>

definition tehIssue :: match where
  "tehIssue =
     \<lparr>offset = 0, length_m = 3, message = ''Possible spelling mistake found.'',
      rule = \<lparr>issueType = ''misspelling''\<rparr>,
      context_m = \<lparr>text_c = ''teh'', offset_c = 0, length_c = 3\<rparr>,
      replacements = [\<lparr>value_r = ''the''\<rparr>]\<rparr>"

text \<open>A page that shows the given text, with no check made yet and none under way.\<close>

definition pageShowing :: "string \<Rightarrow> app" where
  "pageShowing text' =
     \<lparr>editor_value = text',
      highlights_innerHTML = escapeHtml text',
      charCount_textContent = charLabel (length text'),
      wordCount_textContent = wordLabel (countWords text'),
      suggestionsList_innerHTML = [],
      badge_textContent = [],
      badge_hidden = True,
      badge_warning = False,
      loader_hidden = True,
      checkBtn_disabled = False,
      checkBtn_opacity = ''1'',
      currentMatches = [],
      requests = [],
      alerts = [],
      console_errors = []\<rparr>"

section \<open>Lemmas\<close>

subsection \<open>Escaping\<close>

lemma replaceAll_Nil [simp]: "replaceAll c r [] = []"
  by (simp add: replaceAll_def)

lemma replaceAll_Cons: "replaceAll c r (x # xs) = (if x = c then r else [x]) @ replaceAll c r xs"
  by (simp add: replaceAll_def)

lemma replaceAll_append: "replaceAll c r (xs @ ys) = replaceAll c r xs @ replaceAll c r ys"
  by (simp add: replaceAll_def)

lemma escapeHtml_Nil [simp]: "escapeHtml [] = []"
  by (simp add: escapeHtml_def)

lemma escapeHtml_Cons: "escapeHtml (c # cs) = escapeChar c @ escapeHtml cs"
  by (simp add: escapeHtml_def escapeChar_def replaceAll_Cons replaceAll_append)

lemma escapeHtml_append: "escapeHtml (xs @ ys) = escapeHtml xs @ escapeHtml ys"
  by (induction xs) (simp_all add: escapeHtml_Cons)

lemma escapeChar_prefix_free:
  "escapeChar c @ u = escapeChar d @ v \<Longrightarrow> c = d \<and> u = v"
  by (auto simp: escapeChar_def split: if_splits)

lemma escapeHtml_eqD: "escapeHtml s = escapeHtml t \<Longrightarrow> s = t"
proof (induction s arbitrary: t)
  case Nil
  then show ?case
    by (cases t) (auto simp: escapeHtml_Cons escapeChar_def split: if_splits)
next
  case (Cons c cs)
  show ?case
  proof (cases t)
    case Nil
    with Cons.prems show ?thesis
      by (auto simp: escapeHtml_Cons escapeChar_def split: if_splits)
  next
    case (Cons d ds)
    with Cons.prems have "escapeChar c @ escapeHtml cs = escapeChar d @ escapeHtml ds"
      by (simp add: escapeHtml_Cons)
    then have "c = d" and "escapeHtml cs = escapeHtml ds"
      using escapeChar_prefix_free by blast+
    with Cons.IH Cons show ?thesis by simp
  qed
qed

subsection \<open>Words and tokens\<close>

lemma splitFrom_not_Nil: "splitFrom piece s \<noteq> []"
  by (induction piece s rule: splitFrom.induct) auto

lemma maximalTokens_Nil [simp]: "maximalTokens [] = []"
  by (simp add: maximalTokens.simps)

lemma maximalTokens_dropWhile:
  "maximalTokens (dropWhile isWhiteSpace s) = maximalTokens s"
  by (subst maximalTokens.simps, subst (2) maximalTokens.simps) (simp add: dropWhile_idem)

lemma maximalTokens_white: "isWhiteSpace c \<Longrightarrow> maximalTokens (c # cs) = maximalTokens cs"
  using maximalTokens_dropWhile [of "c # cs"] maximalTokens_dropWhile [of cs] by simp

lemma maximalTokens_piece:
  assumes "piece \<noteq> []" and "\<forall>x \<in> set piece. \<not> isWhiteSpace x"
    and "r = [] \<or> isWhiteSpace (hd r)"
  shows "maximalTokens (piece @ r) = piece # maximalTokens r"
proof -
  from assms(1) obtain c cs where piece: "piece = c # cs" by (cases piece) auto
  with assms(2) have c: "\<not> isWhiteSpace c" and cs: "\<forall>x \<in> set cs. \<not> isWhiteSpace x" by auto
  have tw: "takeWhile (\<lambda>x. \<not> isWhiteSpace x) r = []"
    using assms(3) by (cases r) auto
  have dw: "dropWhile (\<lambda>x. \<not> isWhiteSpace x) r = r"
    using assms(3) by (cases r) auto
  have "takeWhile (\<lambda>x. \<not> isWhiteSpace x) (cs @ r) = cs"
    using cs tw by (simp add: takeWhile_append2)
  moreover have "dropWhile (\<lambda>x. \<not> isWhiteSpace x) (cs @ r) = r"
    using cs dw by (simp add: dropWhile_append2)
  ultimately show ?thesis
    using c piece by (subst maximalTokens.simps) simp
qed

lemma splitFrom_tokens:
  assumes "\<forall>x \<in> set piece. \<not> isWhiteSpace x"
    and "s \<noteq> [] \<longrightarrow> \<not> isWhiteSpace (last s)"
    and "piece = [] \<longrightarrow> s \<noteq> [] \<and> \<not> isWhiteSpace (hd s)"
  shows "splitFrom piece s = maximalTokens (piece @ s)"
  using assms
proof (induction piece s rule: splitFrom.induct)
  case (1 piece)
  then show ?case using maximalTokens_piece [of piece "[]"] by simp
next
  case (2 piece c cs)
  show ?case
  proof (cases "isWhiteSpace c")
    case True
    with "2.prems" have piece: "piece \<noteq> []" by auto
    from True "2.prems"(2) have cs: "cs \<noteq> []" "\<not> isWhiteSpace (last cs)" by (auto split: if_splits)
    then have dne: "dropWhile isWhiteSpace cs \<noteq> []"
      by (metis dropWhile_eq_Nil_conv last_in_set)
    then have hd: "\<not> isWhiteSpace (hd (dropWhile isWhiteSpace cs))"
      by (simp add: hd_dropWhile)
    have "last (dropWhile isWhiteSpace cs) = last cs"
      using dne by (metis last_appendR takeWhile_dropWhile_id)
    with cs dne hd have "splitFrom [] (dropWhile isWhiteSpace cs)
        = maximalTokens ([] @ dropWhile isWhiteSpace cs)"
      using "2.IH"(1) [OF True] by simp
    then have "splitFrom piece (c # cs) = piece # maximalTokens cs"
      using True by (simp add: maximalTokens_dropWhile)
    moreover have "maximalTokens (piece @ c # cs) = piece # maximalTokens (c # cs)"
      using maximalTokens_piece [of piece "c # cs"] piece "2.prems"(1) True by simp
    ultimately show ?thesis using True by (simp add: maximalTokens_white)
  next
    case False
    have "splitFrom (piece @ [c]) cs = maximalTokens ((piece @ [c]) @ cs)"
      using "2.IH"(2) [OF False] False "2.prems" by (auto split: if_splits)
    then show ?thesis using False by simp
  qed
qed

lemma trim_ends:
  "trim s \<noteq> [] \<Longrightarrow> \<not> isWhiteSpace (hd (trim s)) \<and> \<not> isWhiteSpace (last (trim s))"
proof -
  assume ne: "trim s \<noteq> []"
  define t where "t = dropWhile isWhiteSpace s"
  define u where "u = dropWhile isWhiteSpace (rev t)"
  have tr: "trim s = rev u" by (simp add: trim_def t_def u_def)
  with ne have u: "u \<noteq> []" by simp
  then have "\<not> isWhiteSpace (hd u)" by (simp add: u_def hd_dropWhile)
  then have l: "\<not> isWhiteSpace (last (trim s))" using u tr by (simp add: last_rev)
  from u have t: "t \<noteq> []" by (auto simp: u_def)
  then have ht: "\<not> isWhiteSpace (hd t)" by (simp add: t_def hd_dropWhile)
  have "last u = last (rev t)"
    using u unfolding u_def by (metis last_appendR takeWhile_dropWhile_id)
  then have "hd (trim s) = hd t" using u t tr by (simp add: hd_rev last_rev)
  with ht l show ?thesis by simp
qed

lemma splitWhiteSpace_trim:
  "trim s \<noteq> [] \<Longrightarrow> splitWhiteSpace (trim s) = maximalTokens (trim s)"
  using splitFrom_tokens [of "[]" "trim s"] trim_ends [of s]
  by (simp add: splitWhiteSpace_def)


subsection \<open>Sorting\<close>

lemma insertSorted_insort: "insertSorted a bs = insort_key offset a bs"
  by (induction bs) (auto simp: compareOffset_def)

lemma sortMatches_sort_key: "sortMatches ms = sort_key offset ms"
  by (induction ms) (simp_all add: sortMatches_def insertSorted_insort)

subsection \<open>Tokens of the untrimmed text\<close>

lemma maximalTokens_all_white:
  assumes "\<forall>x \<in> set w. isWhiteSpace x"
  shows "maximalTokens w = []"
proof -
  have "dropWhile isWhiteSpace w = []"
    using assms by simp
  then show ?thesis
    by (subst maximalTokens.simps) (simp only: list.case)
qed

lemma maximalTokens_trailing:
  "\<forall>x \<in> set w. isWhiteSpace x \<Longrightarrow> maximalTokens (x @ w) = maximalTokens x"
proof (induction x rule: maximalTokens.induct)
  case (1 s)
  show ?case
  proof (cases "dropWhile isWhiteSpace s")
    case Nil
    then have "\<forall>x \<in> set (s @ w). isWhiteSpace x"
      using "1.prems" by (auto simp: dropWhile_eq_Nil_conv)
    then have "maximalTokens (s @ w) = []" by (rule maximalTokens_all_white)
    moreover have "maximalTokens s = []"
      by (subst maximalTokens.simps) (simp only: Nil list.case)
    ultimately show ?thesis by simp
  next
    case (Cons c cs)
    then have "\<exists>y \<in> set s. \<not> isWhiteSpace y"
      by (metis dropWhile_eq_Nil_conv list.distinct(1))
    then have dw: "dropWhile isWhiteSpace (s @ w) = c # cs @ w"
      using Cons by (auto simp: dropWhile_append1)
    have lhs: "maximalTokens (s @ w)
        = (c # takeWhile (\<lambda>x. \<not> isWhiteSpace x) (cs @ w))
            # maximalTokens (dropWhile (\<lambda>x. \<not> isWhiteSpace x) (cs @ w))"
      by (subst maximalTokens.simps) (simp add: dw)
    have rhs: "maximalTokens s
        = (c # takeWhile (\<lambda>x. \<not> isWhiteSpace x) cs)
            # maximalTokens (dropWhile (\<lambda>x. \<not> isWhiteSpace x) cs)"
      by (subst maximalTokens.simps) (simp add: Cons)
    show ?thesis
    proof (cases "\<exists>y \<in> set cs. isWhiteSpace y")
      case True
      then have "takeWhile (\<lambda>x. \<not> isWhiteSpace x) (cs @ w) = takeWhile (\<lambda>x. \<not> isWhiteSpace x) cs"
        and "dropWhile (\<lambda>x. \<not> isWhiteSpace x) (cs @ w) = dropWhile (\<lambda>x. \<not> isWhiteSpace x) cs @ w"
        by (auto simp: takeWhile_append1 dropWhile_append1)
      then show ?thesis
        using lhs rhs "1.IH" [OF Cons "1.prems"] by simp
    next
      case False
      have tw: "takeWhile (\<lambda>x. \<not> isWhiteSpace x) w = []"
        using "1.prems" by (cases w) auto
      have dwn: "dropWhile (\<lambda>x. \<not> isWhiteSpace x) w = w"
        using "1.prems" by (cases w) auto
      from False have all: "\<forall>y \<in> set cs. \<not> isWhiteSpace y" by simp
      then have "takeWhile (\<lambda>x. \<not> isWhiteSpace x) (cs @ w) = cs"
        and "dropWhile (\<lambda>x. \<not> isWhiteSpace x) (cs @ w) = w"
        using tw dwn by (simp_all add: takeWhile_append2 dropWhile_append2)
      then have l: "maximalTokens (s @ w) = [c # cs]"
        using lhs maximalTokens_all_white [OF "1.prems"] by simp
      from all have tk: "takeWhile (\<lambda>x. \<not> isWhiteSpace x) cs = cs"
        and dr: "dropWhile (\<lambda>x. \<not> isWhiteSpace x) cs = []"
        by simp_all
      have "maximalTokens s = [c # cs]"
        using rhs by (simp only: tk dr maximalTokens_Nil)
      with l show ?thesis by simp
    qed
  qed
qed

lemma maximalTokens_trim: "maximalTokens (trim s) = maximalTokens s"
proof -
  define t where "t = dropWhile isWhiteSpace s"
  define w where "w = rev (takeWhile isWhiteSpace (rev t))"
  have "t = rev (dropWhile isWhiteSpace (rev t)) @ rev (takeWhile isWhiteSpace (rev t))"
    by (metis rev_append rev_rev_ident takeWhile_dropWhile_id)
  then have t: "t = trim s @ w"
    by (simp only: trim_def t_def w_def)
  have "\<forall>x \<in> set w. isWhiteSpace x"
    by (auto simp: w_def dest: set_takeWhileD)
  then have "maximalTokens (trim s @ w) = maximalTokens (trim s)"
    by (rule maximalTokens_trailing)
  then show ?thesis
    using t maximalTokens_dropWhile [of s] by (simp add: t_def)
qed

lemma countWords_maximalTokens: "countWords B = length (maximalTokens B)"
proof (cases "trim B = []")
  case True
  then show ?thesis
    using maximalTokens_trim [of B] by (simp add: countWords_def)
next
  case False
  then show ?thesis
    using splitWhiteSpace_trim [OF False] by (simp add: countWords_def maximalTokens_trim)
qed

subsection \<open>Where \<^verbatim>\<open>substring\<close> cuts\<close>

lemma substring_prefix: "substring s 0 n = take (nat n) s"
  by (simp add: substring_def Let_def min_def max_def)

lemma substringFrom_suffix: "substringFrom s n = drop (nat n) s"
  by (auto simp: substringFrom_def substring_def Let_def min_def max_def)

subsection \<open>Stripping the overlay\<close>

lemma escapeHtml_no_lt: "CHR ''<'' \<notin> set (escapeHtml s)"
  by (induction s) (auto simp: escapeHtml_Cons escapeChar_def)

lemma stripTags_plain:
  "CHR ''<'' \<notin> set u \<Longrightarrow> stripTags False (u @ rest) = u @ stripTags False rest"
  by (induction u) auto

lemma stripTags_escapeHtml:
  "stripTags False (escapeHtml s @ rest) = escapeHtml s @ stripTags False rest"
  by (simp add: stripTags_plain escapeHtml_no_lt)

lemma stripTags_inTag:
  "CHR ''>'' \<notin> set u \<Longrightarrow> stripTags True (u @ CHR ''>'' # rest) = stripTags False rest"
  by (induction u) auto

lemma digitChar_no_gt: "d < 10 \<Longrightarrow> digitChar d \<noteq> CHR ''>''"
proof -
  assume "d < 10"
  then have "digitChar d \<in> set ''0123456789''"
    unfolding digitChar_def by (intro nth_mem) simp
  then show ?thesis by auto
qed

lemma showNat_no_gt: "CHR ''>'' \<notin> set (showNat n)"
proof (induction n rule: showNat.induct)
  case (1 n)
  show ?case
  proof (cases "n < 10")
    case True
    then show ?thesis using digitChar_no_gt [of n] by (subst showNat.simps) auto
  next
    case False
    then show ?thesis
      using "1.IH" digitChar_no_gt [of "n mod 10"] by (subst showNat.simps) auto
  qed
qed

lemma typeClass_no_gt: "CHR ''>'' \<notin> set (typeClass m)"
  by (simp add: typeClass_def)

lemma stripTags_markOpen:
  assumes "CHR ''>'' \<notin> set cls"
  shows "stripTags False (markOpen cls i @ rest) = stripTags False rest"
proof -
  define u where \<open>u = ''mark class="'' @ cls @ ''" data-index="'' @ showNat i @ ''"''\<close>
  have u: "CHR ''>'' \<notin> set u"
    using assms showNat_no_gt [of i] by (simp add: u_def)
  have m: "markOpen cls i @ rest = CHR ''<'' # u @ CHR ''>'' # rest"
    by (simp add: markOpen_def u_def)
  have t: "take 5 (u @ CHR ''>'' # rest) = ''mark ''"
    by (simp add: u_def)
  show ?thesis
    unfolding m using t stripTags_inTag [OF u, of rest] by simp
qed

lemma stripTags_markClose: "stripTags False (markClose @ rest) = stripTags False rest"
  by (simp add: markClose_def)

lemma slice_in_range:
  "0 \<le> a \<Longrightarrow> a \<le> b \<Longrightarrow> b \<le> int (length s)
   \<Longrightarrow> slice s a b = take (nat b - nat a) (drop (nat a) s)"
  by (simp add: slice_def Let_def min_def nat_diff_distrib)

lemma sliceFrom_in_range:
  "0 \<le> a \<Longrightarrow> a \<le> int (length s) \<Longrightarrow> sliceFrom s a = drop (nat a) s"
  by (simp add: sliceFrom_def slice_in_range)

lemma take_then_more:
  "a \<le> b \<Longrightarrow> take a s @ take (b - a) (drop a s) = take b s"
  using take_add [of a "b - a" s] by simp

lemma fold_highlightStep_strips:
  assumes "placedFrom (int (length B)) cur ms" and "0 \<le> cur" and "cur \<le> int (length B)"
    and "\<forall>rest. stripTags False (H @ rest) = escapeHtml (take (nat cur) B) @ stripTags False rest"
  shows "\<exists>H' lastIndex.
           fold (highlightStep B) (enumerate i ms) (H, cur) = (H', lastIndex)
           \<and> 0 \<le> lastIndex \<and> lastIndex \<le> int (length B)
           \<and> (\<forall>rest. stripTags False (H' @ rest)
                  = escapeHtml (take (nat lastIndex) B) @ stripTags False rest)"
  using assms
proof (induction ms arbitrary: H cur i)
  case Nil
  then show ?case by simp
next
  case (Cons m ms)
  define off where "off = offset m"
  define e where "e = offset m + length_m m"
  from Cons.prems(1) have rng: "cur \<le> off" "off \<le> e" "e \<le> int (length B)"
    and rest: "placedFrom (int (length B)) e ms"
    by (simp_all add: off_def e_def)
  define H1 where "H1 = H @ escapeHtml (slice B cur off) @ markOpen (typeClass m) i
                          @ escapeHtml (slice B off e) @ markClose"
  have step: "highlightStep B (i, m) (H, cur) = (H1, e)"
    by (simp add: H1_def off_def e_def Let_def)
  have s1: "slice B cur off = take (nat off - nat cur) (drop (nat cur) B)"
    using rng Cons.prems(2) by (intro slice_in_range) auto
  have s2: "slice B off e = take (nat e - nat off) (drop (nat off) B)"
    using rng Cons.prems(2) by (intro slice_in_range) auto
  have le: "nat cur \<le> nat off" "nat off \<le> nat e" using rng Cons.prems(2) by auto
  have inv: "\<forall>rest. stripTags False (H1 @ rest)
               = escapeHtml (take (nat e) B) @ stripTags False rest"
  proof
    fix rest
    have "stripTags False (H1 @ rest)
        = escapeHtml (take (nat cur) B) @ escapeHtml (slice B cur off)
            @ escapeHtml (slice B off e) @ stripTags False rest"
      using Cons.prems(4)
      by (simp add: H1_def stripTags_escapeHtml stripTags_markOpen typeClass_no_gt
            stripTags_markClose)
    also have "\<dots> = escapeHtml ((take (nat cur) B @ take (nat off - nat cur) (drop (nat cur) B))
                        @ take (nat e - nat off) (drop (nat off) B)) @ stripTags False rest"
      by (simp add: s1 s2 escapeHtml_append)
    also have "\<dots> = escapeHtml (take (nat e) B) @ stripTags False rest"
      using le by (simp only: take_then_more)
    finally show "stripTags False (H1 @ rest)
        = escapeHtml (take (nat e) B) @ stripTags False rest" .
  qed
  have "0 \<le> e" using rng Cons.prems(2) by simp
  have "fold (highlightStep B) (enumerate i (m # ms)) (H, cur)
          = fold (highlightStep B) (enumerate (Suc i) ms) (highlightStep B (i, m) (H, cur))"
    by (simp add: enumerate_simps del: highlightStep.simps)
  then have unfold: "fold (highlightStep B) (enumerate i (m # ms)) (H, cur)
          = fold (highlightStep B) (enumerate (Suc i) ms) (H1, e)"
    by (simp only: step)
  from Cons.IH [OF rest \<open>0 \<le> e\<close> rng(3) inv, of "Suc i"]
  show ?case by (simp only: unfold)
qed

lemma placedFrom_of_nonOverlapping:
  assumes "nonOverlapping ms" and "\<forall>m \<in> set ms. withinRange B m"
    and "\<forall>m \<in> set ms. cur \<le> offset m"
  shows "placedFrom (int (length B)) cur ms"
  using assms
  by (induction ms arbitrary: cur) (auto simp: withinRange_def)

lemma sortMatches_sorted_id: "sortedByOffset ms \<Longrightarrow> sortMatches ms = ms"
  by (simp add: sortMatches_sort_key sortedByOffset_def sort_key_id_if_sorted)

subsection \<open>The walk of the renderer and the highlights it leaves\<close>

lemma fold_highlightStep_walk:
  "fst (fold (highlightStep B) (enumerate i ms) (H, cur))
     @ escapeHtml (sliceFrom B (snd (fold (highlightStep B) (enumerate i ms) (H, cur))))
   = H @ walkIssues B cur i ms"
  by (induction ms arbitrary: H cur i) (simp_all add: enumerate_simps Let_def)

lemma highlightedTextOf_walk:
  "highlightedTextOf B ms
     = walkIssues B 0 0 (sortMatches ms) @ (if endsWith B [CHR 0x0A] then ''<br>'' else [])"
  using fold_highlightStep_walk [of B 0 "sortMatches ms" "[]" 0]
  by (simp add: highlightedTextOf_def Let_def case_prod_beta)

lemma scanMarks_Plain_carry: "scanMarks Plain t w s = scanMarks Plain [] [] s"
  by (cases s) simp_all

lemma scanMarks_plain_text:
  "CHR ''<'' \<notin> set u \<Longrightarrow> scanMarks Plain t w (u @ rest) = scanMarks Plain [] [] rest"
proof (induction u arbitrary: t w)
  case Nil
  show ?case using scanMarks_Plain_carry [of t w rest] by simp
next
  case (Cons a u)
  then show ?case by auto
qed

lemma scanMarks_in_tag:
  "CHR ''>'' \<notin> set u
   \<Longrightarrow> scanMarks OpenTag t w (u @ CHR ''>'' # rest) = scanMarks Content (t @ u @ ''>'') [] rest"
  by (induction u arbitrary: t w) auto

lemma scanMarks_in_content:
  "CHR ''<'' \<notin> set u
   \<Longrightarrow> scanMarks Content t w (u @ CHR ''<'' # rest) = (t, w @ u) # scanMarks Plain [] [] rest"
  by (induction u arbitrary: w) auto

lemma scanMarks_mark:
  assumes "CHR ''>'' \<notin> set cls"
  shows "scanMarks Plain t w (markOpen cls i @ escapeHtml x @ markClose @ rest)
           = (markOpen cls i, escapeHtml x) # scanMarks Plain [] [] rest"
proof -
  define u where \<open>u = ''mark class="'' @ cls @ ''" data-index="'' @ showNat i @ ''"''\<close>
  have u: "CHR ''>'' \<notin> set u"
    using assms showNat_no_gt [of i] by (simp add: u_def)
  have m: "markOpen cls i = CHR ''<'' # u @ ''>''"
    by (simp add: markOpen_def u_def)
  have t5: "take 5 (u @ r) = ''mark ''" for r
    by (simp add: u_def)
  have "scanMarks Plain t w (markOpen cls i @ escapeHtml x @ markClose @ rest)
          = scanMarks OpenTag ''<'' [] (u @ CHR ''>'' # escapeHtml x @ markClose @ rest)"
    using t5 by (simp add: m)
  also have "\<dots> = scanMarks Content (markOpen cls i) [] (escapeHtml x @ markClose @ rest)"
    using scanMarks_in_tag [OF u] by (simp add: m)
  also have "\<dots> = (markOpen cls i, escapeHtml x) # scanMarks Plain [] [] (''/mark>'' @ rest)"
    using scanMarks_in_content [of "escapeHtml x" "markOpen cls i" "[]" "''/mark>'' @ rest"]
    by (simp add: escapeHtml_no_lt markClose_def)
  also have "scanMarks Plain [] [] (''/mark>'' @ rest) = scanMarks Plain [] [] rest"
    by (rule scanMarks_plain_text) simp
  finally show ?thesis .
qed

lemma scanMarks_walk:
  "scanMarks Plain [] [] (walkIssues B cur i ms @ rest)
     = map (\<lambda>(index, m). (markOpen (typeClass m) index,
                            escapeHtml (slice B (offset m) (offset m + length_m m))))
         (enumerate i ms)
       @ scanMarks Plain [] [] rest"
proof (induction ms arbitrary: cur i)
  case Nil
  show ?case
    by (simp add: scanMarks_plain_text escapeHtml_no_lt)
next
  case (Cons m ms)
  show ?case
    by (simp add: enumerate_simps scanMarks_plain_text escapeHtml_no_lt scanMarks_mark
          typeClass_no_gt Cons.IH)
qed

lemma marksOf_highlightedTextOf:
  "marksOf (highlightedTextOf B ms)
     = map (\<lambda>(index, m). (markOpen (typeClass m) index,
                            escapeHtml (slice B (offset m) (offset m + length_m m))))
         (enumerate 0 (sortMatches ms))"
  using scanMarks_walk [of B 0 0 "sortMatches ms" "[]"]
        scanMarks_walk [of B 0 0 "sortMatches ms" "''<br>''"]
  by (simp add: marksOf_def highlightedTextOf_walk)

section \<open>The claims\<close>

subsection \<open>Indices of highlights and of cards\<close>

text \<open>
  \<^bold>\<open>C1\<close> says that the index carried by the highlight of an issue is the position of the
  issue in the list of the service, which is the index of its card. The code numbers the
  highlights by position in the sorted copy. On the buffer \<^verbatim>\<open>I has a dgo\<close>, with the
  service listing the misspelling at offset 8 before the grammar issue at offset 2, the
  highlight of \<^verbatim>\<open>has\<close> carries index 0 and the one of \<^verbatim>\<open>dgo\<close> index 1, while the panel
  renders card 0 for \<^verbatim>\<open>dgo\<close> and card 1 for \<^verbatim>\<open>has\<close>; a click on the highlight of \<^verbatim>\<open>has\<close>
  looks up \<^verbatim>\<open>card-0\<close>.
\<close>

theorem highlight_index_is_sorted_position:
  \<open>highlightedTextOf ''I has a dgo'' [dgoIssue, hasIssue]
     = ''I <mark class="grammar" data-index="0">has</mark> a <mark class="misspelling" data-index="1">dgo</mark>''
   \<and> suggestionsList_innerHTML
         (renderResults ((pageShowing ''I has a dgo'')\<lparr>currentMatches := [dgoIssue, hasIssue]\<rparr>))
       = renderCard 0 dgoIssue @ renderCard 1 hasIssue
   \<and> cardIdOfMark ''0'' = ''card-0''\<close>
proof (intro conjI)
  show \<open>highlightedTextOf ''I has a dgo'' [dgoIssue, hasIssue]
     = ''I <mark class="grammar" data-index="0">has</mark> a <mark class="misspelling" data-index="1">dgo</mark>''\<close>
    by code_simp
  show "suggestionsList_innerHTML
         (renderResults ((pageShowing ''I has a dgo'')\<lparr>currentMatches := [dgoIssue, hasIssue]\<rparr>))
       = renderCard 0 dgoIssue @ renderCard 1 hasIssue"
    by (simp add: renderResults_def Let_def enumerate_simps)
  show "cardIdOfMark ''0'' = ''card-0''"
    by (simp add: cardIdOfMark_def)
qed

text \<open>When the service lists the issues by ascending offset, the sorted copy is the list
  itself and the two numberings agree.\<close>

lemma highlight_index_of_sorted_list:
  "sortedByOffset ms \<Longrightarrow> enumerate 0 (sortMatches ms) = enumerate 0 ms"
  by (simp add: sortMatches_sorted_id)

subsection \<open>Editing the buffer\<close>

text \<open>
  \<^bold>\<open>C2\<close> says that an edit of the buffer empties the Issue Set and resets the overlay to
  the plain escaped text. The \<^verbatim>\<open>input\<close> listener resets the overlay, but it writes neither
  \<^verbatim>\<open>currentMatches\<close> nor the panel: after a check of \<^verbatim>\<open>I has a dog\<close> that found one issue
  and an edit to \<^verbatim>\<open>Well, I has a dog\<close>, the Issue Set still has its one issue.
\<close>

theorem edit_keeps_issue_set:
  "currentMatches (onInput edited s) = currentMatches s
   \<and> suggestionsList_innerHTML (onInput edited s) = suggestionsList_innerHTML s
   \<and> highlights_innerHTML (onInput edited s) = escapeHtml edited
   \<and> length (currentMatches (onInput ''Well, I has a dog''
        (checkTextSettled (Matches [hasIssue]) (checkText (pageShowing ''I has a dog''))))) = 1"
  by (simp add: onInput_def clearHighlights_def updateStats_def Let_def
        checkTextSettled_def setLoading_def applyHighlights_def renderResults_def)

text \<open>The card that is still shown then splices at the offset of the old buffer.\<close>

lemma stale_replacement_after_edit:
  "map_sum id editor_value
     (applyReplacement 0 ''have''
        (onInput ''Well, I has a dog''
           (checkTextSettled (Matches [hasIssue]) (checkText (pageShowing ''I has a dog'')))))
   = Inr ''Wehave I has a dog''"
  by code_simp

subsection \<open>The overlay loses no text\<close>

text \<open>
  \<^bold>\<open>C3\<close>, as amended: for every buffer and every list of issues that is sorted by
  ascending offset, in which no issue reaches into a later one and every issue lies within
  the buffer, the overlay with its wrapper tags stripped is the escaped buffer, followed by
  the line break \<^verbatim>\<open><br>\<close> when the buffer ends with a line feed.
\<close>

theorem highlight_roundtrip:
  assumes "sortedByOffset ms" and "nonOverlapping ms" and "\<forall>m \<in> set ms. withinRange B m"
  shows "stripWrapperTags (highlightedTextOf B ms)
           = escapeHtml B @ (if endsWith B [CHR 0x0A] then ''<br>'' else [])"
proof -
  have pl: "placedFrom (int (length B)) 0 ms"
    using assms(2,3) by (intro placedFrom_of_nonOverlapping) (auto simp: withinRange_def)
  have "\<forall>rest. stripTags False ([] @ rest) = escapeHtml (take (nat 0) B) @ stripTags False rest"
    by simp
  from fold_highlightStep_strips [OF pl _ _ this, of 0]
  obtain H' lastIndex where
    f: "fold (highlightStep B) (enumerate 0 ms) ([], 0) = (H', lastIndex)"
    and r: "0 \<le> lastIndex" "lastIndex \<le> int (length B)"
    and inv: "\<And>rest. stripTags False (H' @ rest)
                = escapeHtml (take (nat lastIndex) B) @ stripTags False rest"
    by auto
  have tail: "sliceFrom B lastIndex = drop (nat lastIndex) B"
    using r by (rule sliceFrom_in_range)
  have whole: "escapeHtml (take (nat lastIndex) B) @ escapeHtml (drop (nat lastIndex) B)
                 = escapeHtml B"
    by (simp add: escapeHtml_append [symmetric])
  have "stripTags False (H' @ escapeHtml (drop (nat lastIndex) B) @ t)
          = escapeHtml B @ stripTags False t" for t
    using inv [of "escapeHtml (drop (nat lastIndex) B) @ t"] whole
    by (simp add: stripTags_escapeHtml)
  from this [of "[]"] this [of "''<br>''"] show ?thesis
    using f tail
    by (simp add: stripWrapperTags_def highlightedTextOf_def sortMatches_sorted_id [OF assms(1)])
qed

text \<open>The theorem on the buffer \<^verbatim>\<open>I has a <dgo\<close> with both issues, listed by offset.\<close>

theorem highlight_roundtrip_witness:
  "sortedByOffset [hasIssue, dgoIssue\<lparr>offset := 9\<rparr>]
   \<and> nonOverlapping [hasIssue, dgoIssue\<lparr>offset := 9\<rparr>]
   \<and> withinRange ''I has a <dgo'' hasIssue
   \<and> withinRange ''I has a <dgo'' (dgoIssue\<lparr>offset := 9\<rparr>)
   \<and> stripWrapperTags (highlightedTextOf ''I has a <dgo'' [hasIssue, dgoIssue\<lparr>offset := 9\<rparr>])
       = ''I has a &lt;dgo''"
proof -
  have s: "sortedByOffset [hasIssue, dgoIssue\<lparr>offset := 9\<rparr>]"
    by (simp add: sortedByOffset_def hasIssue_def dgoIssue_def)
  have n: "nonOverlapping [hasIssue, dgoIssue\<lparr>offset := 9\<rparr>]"
    by (simp add: hasIssue_def dgoIssue_def)
  have w: "withinRange ''I has a <dgo'' hasIssue"
      "withinRange ''I has a <dgo'' (dgoIssue\<lparr>offset := 9\<rparr>)"
    by (simp_all add: withinRange_def hasIssue_def dgoIssue_def)
  then have a: "\<forall>m \<in> set [hasIssue, dgoIssue\<lparr>offset := 9\<rparr>]. withinRange ''I has a <dgo'' m"
    by simp
  have e: "escapeHtml ''I has a <dgo'' @ (if endsWith ''I has a <dgo'' [CHR 0x0A] then ''<br>'' else [])
             = ''I has a &lt;dgo''"
    by code_simp
  show ?thesis
    using s n w highlight_roundtrip [OF s n a] by (simp only: e simp_thms)
qed

text \<open>The claim as it is written fails on a buffer that ends with a line feed: the
  renderer appends \<^verbatim>\<open><br>\<close>, which is no wrapper tag.\<close>

theorem highlight_roundtrip_counterexample:
  "sortedByOffset [tehIssue] \<and> nonOverlapping [tehIssue]
   \<and> withinRange ''teh\<newline>'' tehIssue
   \<and> stripWrapperTags (highlightedTextOf ''teh\<newline>'' [tehIssue]) = ''teh\<newline><br>''
   \<and> stripWrapperTags (highlightedTextOf ''teh\<newline>'' [tehIssue]) \<noteq> escapeHtml ''teh\<newline>''"
proof -
  have s: "sortedByOffset [tehIssue]"
    by (simp add: sortedByOffset_def)
  have w: "withinRange ''teh\<newline>'' tehIssue"
    by (simp add: withinRange_def tehIssue_def)
  have h: "stripWrapperTags (highlightedTextOf ''teh\<newline>'' [tehIssue]) = ''teh\<newline><br>''"
    by code_simp
  have e: "escapeHtml ''teh\<newline>'' = ''teh\<newline>''"
    by code_simp
  show ?thesis
    using s w by (simp add: h e)
qed

subsection \<open>Applying a replacement\<close>

text \<open>
  \<^bold>\<open>C4\<close>: for every buffer, every index of an entry of the Issue Set and every replacement
  string, \<^verbatim>\<open>applyReplacement\<close> stores the buffer up to the offset of the issue, the
  replacement, and the buffer from the end of the issue on; the character and word labels
  are those of the new buffer, the word count being the number of its maximal
  white-space-delimited tokens; the Issue Set, the overlay and the panel are left as they
  are; and \<^verbatim>\<open>checkText\<close> is called on the new buffer, which posts one request with it (none
  when the new buffer is blank).
\<close>

theorem applyReplacement_splices:
  assumes "0 \<le> i" and "i < int (length (currentMatches s))"
  shows "\<exists>s'. applyReplacement i r s = Inr s'
          \<and> editor_value s'
              = spliceBuffer (editor_value s) (offset (currentMatches s ! nat i))
                  (length_m (currentMatches s ! nat i)) r
          \<and> charCount_textContent s' = charLabel (length (editor_value s'))
          \<and> wordCount_textContent s' = wordLabel (length (maximalTokens (editor_value s')))
          \<and> currentMatches s' = currentMatches s
          \<and> highlights_innerHTML s' = highlights_innerHTML s
          \<and> suggestionsList_innerHTML s' = suggestionsList_innerHTML s
          \<and> requests s'
              = (if trim (editor_value s') = [] then requests s
                 else requests s @ [(LANGUAGETOOL_API, editor_value s', LANGUAGE)])"
  using assms
  by (simp add: applyReplacement_def Let_def checkText_def updateStats_def setLoading_def
        spliceBuffer_def substring_prefix substringFrom_suffix countWords_maximalTokens)

text \<open>The scenario of the specification: \<^verbatim>\<open>have\<close> for the issue of \<^verbatim>\<open>I has a dog\<close>.\<close>

theorem applyReplacement_splices_witness:
  "(0::int) \<le> 0
   \<and> 0 < int (length (currentMatches ((pageShowing ''I has a dog'')\<lparr>currentMatches := [hasIssue]\<rparr>)))
   \<and> (\<exists>s'. applyReplacement 0 ''have'' ((pageShowing ''I has a dog'')\<lparr>currentMatches := [hasIssue]\<rparr>)
              = Inr s'
            \<and> editor_value s' = ''I have a dog''
            \<and> charCount_textContent s' = ''12 characters''
            \<and> wordCount_textContent s' = ''4 words''
            \<and> requests s' = [(LANGUAGETOOL_API, ''I have a dog'', LANGUAGE)])"
proof -
  define s where "s = (pageShowing ''I has a dog'')\<lparr>currentMatches := [hasIssue]\<rparr>"
  have i: "(0::int) \<le> 0" "0 < int (length (currentMatches s))"
    by (simp_all add: s_def)
  have b: "spliceBuffer (editor_value s) (offset (currentMatches s ! nat 0))
             (length_m (currentMatches s ! nat 0)) ''have'' = ''I have a dog''"
    by (simp add: s_def pageShowing_def hasIssue_def spliceBuffer_def)
  have c: "charLabel (length ''I have a dog'') = ''12 characters''"
    by code_simp
  have w: "wordLabel (length (maximalTokens ''I have a dog'')) = ''4 words''"
    by code_simp
  have t: "trim ''I have a dog'' \<noteq> []"
    by code_simp
  have q: "requests s = []"
    by (simp add: s_def pageShowing_def)
  from applyReplacement_splices [OF i, of "''have''"] obtain s' where
    "applyReplacement 0 ''have'' s = Inr s'"
    and e: "editor_value s' = ''I have a dog''"
    and "charCount_textContent s' = charLabel (length (editor_value s'))"
    and "wordCount_textContent s' = wordLabel (length (maximalTokens (editor_value s')))"
    and "requests s'
           = (if trim (editor_value s') = [] then requests s
              else requests s @ [(LANGUAGETOOL_API, editor_value s', LANGUAGE)])"
    unfolding b by blast
  then have "applyReplacement 0 ''have'' s = Inr s'
      \<and> editor_value s' = ''I have a dog''
      \<and> charCount_textContent s' = ''12 characters''
      \<and> wordCount_textContent s' = ''4 words''
      \<and> requests s' = [(LANGUAGETOOL_API, ''I have a dog'', LANGUAGE)]"
    using c w t q by (simp only: e if_False append_Nil simp_thms)
  then show ?thesis
    using i unfolding s_def by blast
qed

subsection \<open>A failed check\<close>

text \<open>
  \<^bold>\<open>C5\<close>: when the request of a check ends in a transport failure or in a response whose
  status is not a success, the page shows one alert, posts no further request, ends its
  busy state, and leaves the Issue Set and everything else that is displayed as it was.
  The page is busy from the call of the check to the arrival of the failure; a page that was
  not busy before the check is, after it, the page it was, with the request and the failure
  on record.
\<close>

theorem failed_check_keeps_state:
  "checkTextSettled NetworkError s
     = s\<lparr>console_errors := console_errors s @ [''Error checking text:''],
         alerts := alerts s @ [''Failed to check text. Please try again later.''],
         loader_hidden := True, checkBtn_disabled := False, checkBtn_opacity := ''1''\<rparr>
   \<and> checkTextSettled StatusNotOk s
     = s\<lparr>console_errors := console_errors s @ [''Error checking text:''],
         alerts := alerts s @ [''Failed to check text. Please try again later.''],
         loader_hidden := True, checkBtn_disabled := False, checkBtn_opacity := ''1''\<rparr>
   \<and> checkTextSettled StatusNotOk (checkText (pageShowing ''I has a dog''))
     = (pageShowing ''I has a dog'')
         \<lparr>requests := [(LANGUAGETOOL_API, ''I has a dog'', LANGUAGE)],
          console_errors := [''Error checking text:''],
          alerts := [''Failed to check text. Please try again later.'']\<rparr>"
proof -
  have "trim ''I has a dog'' \<noteq> []"
    by code_simp
  then show ?thesis
    by (simp add: checkTextSettled_def setLoading_def checkText_def pageShowing_def Let_def)
qed

subsection \<open>A check of a blank buffer\<close>

text \<open>
  \<^bold>\<open>C6\<close>: on a buffer that is empty after trimming, \<^verbatim>\<open>checkText\<close> changes nothing and
  posts no request to the service.
\<close>

theorem blank_check_is_noop:
  "trim (editor_value s) = [] \<Longrightarrow> checkText s = s \<and> requests (checkText s) = requests s"
  by (simp add: checkText_def)

theorem blank_check_is_noop_witness:
  "trim (editor_value (pageShowing [CHR 0x20, CHR 0x09, CHR 0x0A])) = []
   \<and> checkText (pageShowing [CHR 0x20, CHR 0x09, CHR 0x0A])
       = pageShowing [CHR 0x20, CHR 0x09, CHR 0x0A]
   \<and> requests (checkText (pageShowing [CHR 0x20, CHR 0x09, CHR 0x0A])) = []"
proof -
  have "trim [CHR 0x20, CHR 0x09, CHR 0x0A] = []"
    by code_simp
  then have t: "trim (editor_value (pageShowing [CHR 0x20, CHR 0x09, CHR 0x0A])) = []"
    by (simp add: pageShowing_def)
  have "requests (pageShowing [CHR 0x20, CHR 0x09, CHR 0x0A]) = []"
    by (simp add: pageShowing_def)
  then show ?thesis
    using t blank_check_is_noop [OF t] by simp
qed

subsection \<open>The word count\<close>

text \<open>
  \<^bold>\<open>C7\<close>: the word count of a buffer is 0 when the trimmed buffer is empty, and otherwise
  the number of maximal white-space-delimited tokens of the trimmed buffer; it is 0 if and
  only if the trimmed buffer is empty.
\<close>

theorem countWords_tokens:
  "countWords B = (if trim B = [] then 0 else length (maximalTokens (trim B)))
   \<and> (countWords B = 0 \<longleftrightarrow> trim B = [])"
  using splitWhiteSpace_trim [of B] splitFrom_not_Nil [of "[]" "trim B"]
  by (auto simp: countWords_def splitWhiteSpace_def)

theorem countWords_tokens_witness:
  "countWords '' a  b c '' = 3 \<and> maximalTokens (trim '' a  b c '') = [''a'', ''b'', ''c'']
   \<and> countWords ''  '' = 0"
proof -
  have t: "trim '' a  b c '' \<noteq> []" "trim ''  '' = []"
    by code_simp+
  have m: "maximalTokens (trim '' a  b c '') = [''a'', ''b'', ''c'']"
    by code_simp
  show ?thesis
    using countWords_tokens [of "'' a  b c ''"] countWords_tokens [of "''  ''"] t
    by (simp add: m)
qed

subsection \<open>The order of the traversal\<close>

text \<open>
  \<^bold>\<open>C8\<close>: whatever the order of the Issue Set, the renderer walks its issues by
  ascending offset, issues of equal offset in the order of the Issue Set. The copy it
  sorts is sorted by ascending offset, holds the same issues, and keeps issues of equal
  offset in their order; the overlay is the one walk over that copy from its first issue
  to its last, from cursor 0 and index 0, followed by the line break when the buffer ends
  with a line feed; and the highlights that stand in the overlay, from left to right, are
  those of the issues of the sorted copy from first to last, each with its class, its
  index in the copy and the escaped text it covers.
\<close>

theorem sortMatches_stable:
  \<open>sorted (map offset (sortMatches ms))
   \<and> mset (sortMatches ms) = mset ms
   \<and> (\<forall>k. filter (\<lambda>m. offset m = k) (sortMatches ms) = filter (\<lambda>m. offset m = k) ms)
   \<and> highlightedTextOf B ms = highlightedTextOf B (sortMatches ms)
   \<and> highlightedTextOf B ms
       = walkIssues B 0 0 (sortMatches ms) @ (if endsWith B [CHR 0x0A] then ''<br>'' else [])
   \<and> marksOf (highlightedTextOf B ms)
       = map (\<lambda>(index, m). (markOpen (typeClass m) index,
                              escapeHtml (slice B (offset m) (offset m + length_m m))))
           (enumerate 0 (sortMatches ms))\<close>
proof -
  have "sortMatches (sortMatches ms) = sortMatches ms"
    by (simp add: sortMatches_sort_key sort_key_id_if_sorted)
  then have "highlightedTextOf B ms = highlightedTextOf B (sortMatches ms)"
    by (simp add: highlightedTextOf_def)
  moreover have "sorted (map offset (sortMatches ms))" "mset (sortMatches ms) = mset ms"
    "\<forall>k. filter (\<lambda>m. offset m = k) (sortMatches ms) = filter (\<lambda>m. offset m = k) ms"
    by (simp_all add: sortMatches_sort_key sort_key_stable)
  ultimately show ?thesis
    using highlightedTextOf_walk [of B ms] marksOf_highlightedTextOf [of B ms] by blast
qed

text \<open>The issue at offset 8 is listed first; the renderer walks it second, and its
  highlight stands second in the overlay.\<close>

theorem sortMatches_stable_witness:
  \<open>sorted (map offset (sortMatches [dgoIssue, hasIssue]))
   \<and> mset (sortMatches [dgoIssue, hasIssue]) = mset [dgoIssue, hasIssue]
   \<and> sortMatches [dgoIssue, hasIssue] = [hasIssue, dgoIssue]
   \<and> highlightedTextOf ''I has a dgo'' [dgoIssue, hasIssue]
       = walkIssues ''I has a dgo'' 0 0 [hasIssue, dgoIssue]
   \<and> marksOf (highlightedTextOf ''I has a dgo'' [dgoIssue, hasIssue])
       = [(''<mark class="grammar" data-index="0">'', ''has''),
          (''<mark class="misspelling" data-index="1">'', ''dgo'')]\<close>
proof -
  have s: "sortMatches [dgoIssue, hasIssue] = [hasIssue, dgoIssue]"
    by code_simp
  have e: "\<not> endsWith ''I has a dgo'' [CHR 0x0A]"
    by code_simp
  have m: \<open>map (\<lambda>(index, m). (markOpen (typeClass m) index,
                 escapeHtml (slice ''I has a dgo'' (offset m) (offset m + length_m m))))
             (enumerate 0 [hasIssue, dgoIssue])
           = [(''<mark class="grammar" data-index="0">'', ''has''),
              (''<mark class="misspelling" data-index="1">'', ''dgo'')]\<close>
    by code_simp
  note t = sortMatches_stable [of "[dgoIssue, hasIssue]" "''I has a dgo''"]
  from t have a: "sorted (map offset (sortMatches [dgoIssue, hasIssue]))"
    and b: "mset (sortMatches [dgoIssue, hasIssue]) = mset [dgoIssue, hasIssue]"
    by blast+
  from t have "highlightedTextOf ''I has a dgo'' [dgoIssue, hasIssue]
      = walkIssues ''I has a dgo'' 0 0 (sortMatches [dgoIssue, hasIssue])
          @ (if endsWith ''I has a dgo'' [CHR 0x0A] then ''<br>'' else [])"
    by blast
  then have c: "highlightedTextOf ''I has a dgo'' [dgoIssue, hasIssue]
      = walkIssues ''I has a dgo'' 0 0 [hasIssue, dgoIssue]"
    using e by (simp only: s if_False append_Nil2)
  from t have \<open>marksOf (highlightedTextOf ''I has a dgo'' [dgoIssue, hasIssue])
      = map (\<lambda>(index, m). (markOpen (typeClass m) index,
                 escapeHtml (slice ''I has a dgo'' (offset m) (offset m + length_m m))))
          (enumerate 0 (sortMatches [dgoIssue, hasIssue]))\<close>
    by blast
  then have d: \<open>marksOf (highlightedTextOf ''I has a dgo'' [dgoIssue, hasIssue])
      = [(''<mark class="grammar" data-index="0">'', ''has''),
         (''<mark class="misspelling" data-index="1">'', ''dgo'')]\<close>
    by (simp only: s m)
  show ?thesis
    using a b s c d by blast
qed

subsection \<open>Escaping is injective\<close>

text \<open>
  \<^bold>\<open>C9\<close>: two strings with the same escaped text are the same string.
\<close>

theorem escapeHtml_injective: "escapeHtml s = escapeHtml t \<Longrightarrow> s = t"
  by (rule escapeHtml_eqD)

text \<open>A character and the text of its own entity are told apart after escaping.\<close>

theorem escapeHtml_injective_witness:
  "escapeHtml ''a<b'' = ''a&lt;b'' \<and> escapeHtml ''a<b'' \<noteq> escapeHtml ''a&lt;b''"
proof -
  have "escapeHtml ''a<b'' = ''a&lt;b''"
    by code_simp
  moreover have "''a<b'' \<noteq> ''a&lt;b''"
    by simp
  ultimately show ?thesis
    using escapeHtml_injective [of "''a<b''" "''a&lt;b''"] by blast
qed

subsection \<open>The index of a replacement\<close>

text \<open>
  \<^bold>\<open>C10\<close>: \<^verbatim>\<open>applyReplacement\<close> does not check its index; for an index from 0 up to, and
  not including, the length of the Issue Set the issue and its offset and length are
  read and the splice is made: the call does not throw.
\<close>

theorem applyReplacement_in_range:
  "0 \<le> i \<Longrightarrow> i < int (length (currentMatches s))
   \<Longrightarrow> applyReplacement i r s \<noteq> Inl TypeError \<and> (\<exists>s'. applyReplacement i r s = Inr s')"
  by (simp add: applyReplacement_def Let_def)

theorem applyReplacement_in_range_witness:
  "(0::int) \<le> 1
   \<and> 1 < int (length (currentMatches ((pageShowing ''I has a dgo'')\<lparr>currentMatches := [dgoIssue, hasIssue]\<rparr>)))
   \<and> applyReplacement 1 ''have'' ((pageShowing ''I has a dgo'')\<lparr>currentMatches := [dgoIssue, hasIssue]\<rparr>)
       \<noteq> Inl TypeError"
proof -
  have i: "(0::int) \<le> 1"
      "1 < int (length (currentMatches ((pageShowing ''I has a dgo'')\<lparr>currentMatches := [dgoIssue, hasIssue]\<rparr>)))"
    by simp_all
  show ?thesis
    using i applyReplacement_in_range [OF i, of "''have''"] by blast
qed

text \<open>Outside that range the read of \<^verbatim>\<open>match.offset\<close> throws.\<close>

lemma applyReplacement_out_of_range:
  "i < 0 \<or> int (length (currentMatches s)) \<le> i \<Longrightarrow> applyReplacement i r s = Inl TypeError"
  by (auto simp: applyReplacement_def)

end
